theory Spec2Isabelle
  imports Complex_Main "HOL-Library.Sublist"
begin

section \<open>Python string primitives used by SMP.py\<close>

text \<open>
  Python strings are modelled as \<open>string\<close>, a list of characters, one \<open>char\<close> for each
  character of the Python string.

  \<open>str_in needle hay\<close> is Python's \<^verbatim>\<open>needle in hay\<close> on two strings: the needle occurs
  as a contiguous run of the haystack.
\<close>

fun str_in :: "string \<Rightarrow> string \<Rightarrow> bool" where
  "str_in needle [] = (needle = [])"
| "str_in needle (c # cs) = (prefix needle (c # cs) \<or> str_in needle cs)"

text \<open>
  \<open>split_first sep s\<close> is \<^verbatim>\<open>s.split(sep)[0]\<close> for a non-empty separator: the text before the
  first occurrence of the separator, the whole string when there is none.
\<close>

fun split_first :: "string \<Rightarrow> string \<Rightarrow> string" where
  "split_first sep [] = []"
| "split_first sep (c # cs) = (if prefix sep (c # cs) then [] else c # split_first sep cs)"

text \<open>
  \<^verbatim>\<open>str.lower\<close> and \<^verbatim>\<open>str.isdigit\<close> belong to the Python runtime: which characters the
  first folds and which the second accepts is Unicode data that the source does not
  contain (\<^verbatim>\<open>str.lower\<close> folds accented and non-Latin letters, \<^verbatim>\<open>str.isdigit\<close> accepts
  digits beyond 0 to 9, the superscript two among them). The functions of the program
  that call them therefore take them as parameters, \<open>lower\<close> on strings and \<open>isdigit\<close> on
  characters, and what is proved of these functions holds for every such parameter, so for
  Python's own.
\<close>

text \<open>\<^verbatim>\<open>str(i)\<close> for an integer, as the f-strings of the error messages render it.\<close>

fun str_nat :: "nat \<Rightarrow> string" where
  "str_nat k =
     (if k < 10 then [''0123456789'' ! k]
      else str_nat (k div 10) @ [''0123456789'' ! (k mod 10)])"

definition str_int :: "int \<Rightarrow> string" where
  "str_int i = (if i < 0 then CHR ''-'' # str_nat (nat (- i)) else str_nat (nat i))"


text \<open>
  The entries that the filter reads (name, author, description) are different: the code
  calls a string method on them, so an absent key and a JSON null must be told apart. The
  value of such a key is a JSON null or a string; an absent key is \<open>None\<close> in the record.

  \<open>field_lower lower v\<close> is \<^verbatim>\<open>d.get(key, '').lower()\<close>: for an absent key the default \<open>''\<close> is
  lower-cased, for a string the string; for a null the \<open>get\<close> returns Python's \<open>None\<close> and
  the method call raises \<^verbatim>\<open>AttributeError\<close>.
\<close>

datatype json_str = Null | Str string


text \<open>
  Python's slice \<^verbatim>\<open>xs[i:j]\<close>: a negative index counts from the end, and both indices are
  clamped to the list.
\<close>

definition slice_index :: "int \<Rightarrow> int \<Rightarrow> nat" where
  "slice_index len i = nat (if i < 0 then max 0 (i + len) else min i len)"

definition py_slice :: "'a list \<Rightarrow> int \<Rightarrow> int \<Rightarrow> 'a list" where
  "py_slice xs i j =
     (let lo = slice_index (int (length xs)) i; hi = slice_index (int (length xs)) j
      in take (hi - lo) (drop lo xs))"

text \<open>An exception is carried by its message, \<^verbatim>\<open>str(e)\<close>, which is what the worker reports.\<close>

type_synonym exception = string

section \<open>Login: \<open>VRChatManager.login_worker\<close>\<close>

text \<open>
  What \<^verbatim>\<open>auth_api.get_current_user()\<close> does: it returns the user, or raises
  \<^verbatim>\<open>UnauthorizedException\<close> (with its \<open>status\<close> and \<open>reason\<close>), or another \<^verbatim>\<open>ApiException\<close>
  (carried by \<^verbatim>\<open>str(e)\<close>).
\<close>

datatype 'u auth_response =
    CurrentUser 'u
  | UnauthorizedException int string
  | ApiException string

text \<open>
  The dictionary that \<open>login_worker\<close> returns: success with the user, \<open>need_2fa\<close> with the
  \<open>is_email\<close> flag, or failure with the \<open>error\<close> text.
\<close>

datatype 'u login_result =
    LoginSuccess 'u
  | Need2FA bool
  | LoginFailed string

fun login_worker :: "'u auth_response \<Rightarrow> 'u login_result" where
  "login_worker (CurrentUser current_user) = LoginSuccess current_user"
| "login_worker (UnauthorizedException status reason) =
     (if status = 200 then
        (if str_in ''Email 2 Factor Authentication'' reason then Need2FA True
         else if str_in ''2 Factor Authentication'' reason then Need2FA False
         else LoginFailed reason)
      else LoginFailed reason)"
| "login_worker (ApiException msg) = LoginFailed msg"

section \<open>Two-factor dialog: \<open>TwoFactorDialog\<close>\<close>

text \<open>
  The dialog holds one line edit, \<open>code_input\<close>, created with \<^verbatim>\<open>setMaxLength(6)\<close>: the field
  never holds more than six characters, and a longer text given to it is cut at the limit.
  \<open>code_input_setText\<close> is the field taking a text.
\<close>

record two_factor_dialog =
  is_email :: bool
  code_input :: string

definition code_input_maxLength :: nat where
  "code_input_maxLength = 6"

definition code_input_setText :: "string \<Rightarrow> two_factor_dialog \<Rightarrow> two_factor_dialog" where
  "code_input_setText text d = d\<lparr>code_input := take code_input_maxLength text\<rparr>"

text \<open>
  \<open>validate_code_input\<close> is the slot of the field's \<open>textChanged\<close> signal: it receives the
  new text of the field and, when the text holds a character that \<open>isdigit\<close> rejects, sets
  the field's text to the characters it accepts. (The replacement fires \<open>textChanged\<close> once
  more, with a text that the slot then leaves alone.)
\<close>

definition validate_code_input ::
  "(char \<Rightarrow> bool) \<Rightarrow> string \<Rightarrow> two_factor_dialog \<Rightarrow> two_factor_dialog" where
  "validate_code_input isdigit text d =
     (let filtered_text = filter isdigit text
      in if filtered_text \<noteq> text then code_input_setText filtered_text d else d)"

text \<open>
  An edit of the field (typing, pasting): the field takes the text, cut at its maximum
  length, and \<open>textChanged\<close> fires with the text the field now holds.
\<close>

definition code_input_textChanged ::
  "(char \<Rightarrow> bool) \<Rightarrow> string \<Rightarrow> two_factor_dialog \<Rightarrow> two_factor_dialog" where
  "code_input_textChanged isdigit text d =
     (let d' = code_input_setText text d in validate_code_input isdigit (code_input d') d')"



section \<open>Avatar records and HTTP responses\<close>

text \<open>
  An avatar is a JSON object; the fields the program reads are kept, each optional
  (\<open>None\<close> when the key is absent). A nested unity package likewise. The name, the author
  and the description, which the filter reads, hold a string or a JSON null.
\<close>

record unity_package =
  platform :: "string option"
  pkg_assetUrl :: "string option"

record avatar =
  avatar_id :: "string option"
  name :: "json_str option"
  authorName :: "json_str option"
  description :: "json_str option"
  unityPackages :: "unity_package list option"
  assetUrl :: "string option"

text \<open>
  A \<^verbatim>\<open>requests.Response\<close>: the status code, the parsed JSON body of a listing page, the
  \<open>content-length\<close> header as an integer (\<open>None\<close> when the header is absent), and the chunks
  that \<^verbatim>\<open>iter_content\<close> yields.
\<close>

record response =
  status_code :: int
  json :: "avatar list"
  content_length :: "int option"
  iter_content :: "string list"

section \<open>Paginated fetch: \<open>VRChatManager.fetch_avatars_worker\<close>\<close>

record request_params =
  p_n :: int
  p_offset :: int
  p_releaseStatus :: string
  p_sort :: "string option"
  p_order :: "string option"

definition page_size :: int where
  "page_size = 100"

definition max_pages :: nat where
  "max_pages = 10"

definition make_params :: "string \<Rightarrow> int \<Rightarrow> request_params" where
  "make_params filter_type offset =
     (if filter_type = ''Private Avatars'' then
        \<lparr>p_n = page_size, p_offset = offset, p_releaseStatus = ''private'',
         p_sort = Some ''updated'', p_order = Some ''descending''\<rparr>
      else if filter_type = ''Public Avatars'' then
        \<lparr>p_n = page_size, p_offset = offset, p_releaseStatus = ''public'',
         p_sort = Some ''updated'', p_order = Some ''descending''\<rparr>
      else
        \<lparr>p_n = page_size, p_offset = offset, p_releaseStatus = ''all'',
         p_sort = None, p_order = None\<rparr>)"

text \<open>
  The loop \<^verbatim>\<open>for page in range(max_pages)\<close>. The remote side is the sequence of its
  responses: \<open>server k\<close> answers the request of loop index \<open>k\<close>. The loop state is
  \<open>offset\<close> and \<open>all_avatars\<close>; \<open>sent\<close> records the parameters of every request issued, in
  order. The result is the list of requests together with the exception raised or the
  list returned.
\<close>

fun fetch_loop ::
  "string \<Rightarrow> (nat \<Rightarrow> response) \<Rightarrow> nat list \<Rightarrow> int \<Rightarrow> avatar list \<Rightarrow> request_params list
     \<Rightarrow> request_params list \<times> (exception + avatar list)" where
  "fetch_loop filter_type server [] offset all_avatars sent = (sent, Inr all_avatars)"
| "fetch_loop filter_type server (page # pages) offset all_avatars sent =
     (let params = make_params filter_type offset;
          response = server page;
          sent' = sent @ [params]
      in if status_code response \<noteq> 200 then
           (sent', Inl (''API error: '' @ str_int (status_code response)))
         else
           (let avatars = json response
            in if avatars = [] then (sent', Inr all_avatars)
               else if int (length avatars) < page_size then (sent', Inr (all_avatars @ avatars))
               else fetch_loop filter_type server pages (offset + page_size)
                      (all_avatars @ avatars) sent'))"

definition fetch_avatars_worker ::
  "string \<Rightarrow> (nat \<Rightarrow> response) \<Rightarrow> request_params list \<times> (exception + avatar list)" where
  "fetch_avatars_worker filter_type server =
     fetch_loop filter_type server [0..<max_pages] 0 [] []"

section \<open>Pagination widget: \<open>PaginationWidget\<close>\<close>

record pagination_widget =
  current_page :: int
  total_pages :: int
  items_per_page :: int

definition init_pagination :: pagination_widget where
  "init_pagination = \<lparr>current_page = 1, total_pages = 1, items_per_page = 50\<rparr>"

text \<open>
  \<open>set_page_count\<close> divides by \<open>items_per_page\<close> with Python's floor division, which raises
  \<^verbatim>\<open>ZeroDivisionError\<close> on a zero divisor; for any other divisor it is \<open>div\<close> on \<open>int\<close>.
\<close>

definition set_page_count :: "int \<Rightarrow> pagination_widget \<Rightarrow> exception + pagination_widget" where
  "set_page_count total_items w =
     (if items_per_page w = 0 then Inl ''ZeroDivisionError''
      else
        (let w1 = w\<lparr>total_pages :=
                      max 1 ((total_items + items_per_page w - 1) div items_per_page w)\<rparr>
         in Inr (w1\<lparr>current_page := min (current_page w1) (total_pages w1)\<rparr>)))"

text \<open>
  The three slots of the widget's controls. Each returns the new widget state and the
  value it emits on \<open>pageChanged\<close>, if it emits; the emission is the last statement of each.
\<close>

definition prev_page :: "pagination_widget \<Rightarrow> pagination_widget \<times> int option" where
  "prev_page w =
     (if current_page w > 1 then
        (let w' = w\<lparr>current_page := current_page w - 1\<rparr> in (w', Some (current_page w')))
      else (w, None))"

definition next_page :: "pagination_widget \<Rightarrow> pagination_widget \<times> int option" where
  "next_page w =
     (if current_page w < total_pages w then
        (let w' = w\<lparr>current_page := current_page w + 1\<rparr> in (w', Some (current_page w')))
      else (w, None))"

definition items_map :: "int \<Rightarrow> int" where
  "items_map index =
     (if index = 0 then 10 else if index = 1 then 25 else if index = 2 then 50
      else if index = 3 then 100 else 50)"

definition change_items_per_page :: "int \<Rightarrow> pagination_widget \<Rightarrow> pagination_widget \<times> int option" where
  "change_items_per_page index w =
     (let new_items_per_page = items_map index
      in if new_items_per_page \<noteq> items_per_page w then
           (let w' = w\<lparr>items_per_page := new_items_per_page, current_page := 1\<rparr>
            in (w', Some (current_page w')))
         else (w, None))"

section \<open>Filtering and paging of the fetched list: \<open>VRChatManager\<close>\<close>

text \<open>
  The part of the main window's state that filtering and paging use. \<open>search_input\<close> is the
  text of the search field, \<open>displayed\<close> the avatars handed to \<open>display_avatars\<close> by the last
  \<open>display_current_page\<close>. The window's own \<open>current_page\<close> and \<open>items_per_page\<close> are distinct
  from the widget's.
\<close>

record manager =
  avatars_data :: "avatar list"
  filtered_avatars :: "avatar list"
  mgr_current_page :: int
  mgr_items_per_page :: int
  pagination :: pagination_widget
  search_input :: string
  displayed :: "avatar list"

definition init_manager :: manager where
  "init_manager =
     \<lparr>avatars_data = [], filtered_avatars = [], mgr_current_page = 1, mgr_items_per_page = 50,
      pagination = init_pagination, search_input = [], displayed = []\<rparr>"

definition display_current_page :: "manager \<Rightarrow> manager" where
  "display_current_page m =
     (let start_idx = (mgr_current_page m - 1) * mgr_items_per_page m;
          end_idx = min (start_idx + mgr_items_per_page m) (int (length (filtered_avatars m)))
      in m\<lparr>displayed := py_slice (filtered_avatars m) start_idx end_idx\<rparr>)"





text \<open>\<open>change_page\<close> is the slot connected to the widget's \<open>pageChanged\<close> signal.\<close>

definition change_page :: "int \<Rightarrow> manager \<Rightarrow> exception + manager" where
  "change_page page_num m =
     (let m1 = m\<lparr>mgr_current_page := page_num,
                 mgr_items_per_page := items_per_page (pagination m)\<rparr>
      in if filtered_avatars m1 \<noteq> [] then
           (case set_page_count (int (length (filtered_avatars m1))) (pagination m1) of
              Inl e \<Rightarrow> Inl e
            | Inr w \<Rightarrow> Inr (display_current_page (m1\<lparr>pagination := w\<rparr>)))
         else Inr (display_current_page m1))"

text \<open>
  A control of the widget run inside the window: the widget takes its new state and, since
  the signal is delivered in the same thread, the emission runs \<open>change_page\<close> before the
  widget's slot returns.
\<close>

definition deliver :: "pagination_widget \<times> int option \<Rightarrow> manager \<Rightarrow> exception + manager" where
  "deliver r m =
     (case r of
        (w, None) \<Rightarrow> Inr (m\<lparr>pagination := w\<rparr>)
      | (w, Some page_num) \<Rightarrow> change_page page_num (m\<lparr>pagination := w\<rparr>))"

definition on_prev_page :: "manager \<Rightarrow> exception + manager" where
  "on_prev_page m = deliver (prev_page (pagination m)) m"

definition on_next_page :: "manager \<Rightarrow> exception + manager" where
  "on_next_page m = deliver (next_page (pagination m)) m"

definition on_change_items_per_page :: "int \<Rightarrow> manager \<Rightarrow> exception + manager" where
  "on_change_items_per_page index m = deliver (change_items_per_page index (pagination m)) m"

section \<open>Download URL resolution: \<open>VRChatManager.continue_avatar_download\<close>\<close>

text \<open>
  The statement found twice in the source, in \<open>continue_avatar_download\<close> and at the head of
  \<open>download_file_worker\<close>:
  \<^verbatim>\<open>if '/variant/security' in url: url = url.split('/variant/security')[0]\<close>
\<close>

definition remove_variant_security :: "string \<Rightarrow> string" where
  "remove_variant_security url =
     (if str_in ''/variant/security'' url then split_first ''/variant/security'' url else url)"





section \<open>Streamed download: \<open>VRChatManager.download_file_worker\<close>\<close>

text \<open>
  One emission of the worker's \<open>progress\<close> signal. The signal carries the percent value and a
  status text; the text is rendered from the bytes downloaded, the total size and the
  percent value, which is what the model keeps of it.
\<close>

record progress_signal =
  percent :: int
  downloaded_bytes :: int
  total_bytes :: int

text \<open>
  The loop over the chunks. Its state is the content written to the open file, the count
  \<open>downloaded\<close> and the signals emitted so far. The percent value is
  \<^verbatim>\<open>int(downloaded * 100 / total_size)\<close>, a float division truncated, which for sizes below
  \<open>2^53 / 100\<close> bytes is the integer quotient.
\<close>

fun download_loop ::
  "int \<Rightarrow> string list \<Rightarrow> string \<Rightarrow> int \<Rightarrow> progress_signal list
     \<Rightarrow> string \<times> int \<times> progress_signal list" where
  "download_loop total_size [] f downloaded emitted = (f, downloaded, emitted)"
| "download_loop total_size (chunk # chunks) f downloaded emitted =
     (if chunk \<noteq> [] then
        (let f' = f @ chunk;
             downloaded' = downloaded + int (length chunk);
             emitted' =
               (if total_size > 0 then
                  (let percent = (downloaded' * 100) div total_size
                   in if percent mod 1 = 0 then
                        emitted @ [\<lparr>percent = percent, downloaded_bytes = downloaded',
                                     total_bytes = total_size\<rparr>]
                      else emitted)
                else emitted)
         in download_loop total_size chunks f' downloaded' emitted')
      else download_loop total_size chunks f downloaded emitted)"

text \<open>
  A run of the worker: the URL it requested, the files afterwards (a map from path to
  content), the progress signals in order, and the exception raised or the path returned.
\<close>

record download_run =
  requested_url :: string
  files :: "string \<rightharpoonup> string"
  progress :: "progress_signal list"
  outcome :: "exception + string"

definition download_file_worker ::
  "(string \<Rightarrow> response) \<Rightarrow> (string \<rightharpoonup> string) \<Rightarrow> string \<Rightarrow> string \<Rightarrow> download_run" where
  "download_file_worker http fs file_url output_path =
     (let file_url' = remove_variant_security file_url;
          response = http file_url'
      in if status_code response \<noteq> 200 then
           \<lparr>requested_url = file_url', files = fs, progress = [],
            outcome = Inl (''Download failed with status '' @ str_int (status_code response))\<rparr>
         else
           (let total_size = (case content_length response of None \<Rightarrow> 0 | Some k \<Rightarrow> k)
            in case download_loop total_size (iter_content response) [] 0 [] of
                 (f, downloaded, emitted) \<Rightarrow>
                   \<lparr>requested_url = file_url', files = fs(output_path \<mapsto> f),
                    progress = emitted, outcome = Inr output_path\<rparr>))"

section \<open>Specified behaviour, for comparison with the code\<close>


text \<open>
  The number of pages a fetch requests, as the specification words it: the fetch stops at
  the first page that returns fewer than 100 records (zero included), or after 10 pages,
  whichever comes first.
\<close>

definition pages_requested :: "(nat \<Rightarrow> response) \<Rightarrow> nat" where
  "pages_requested server =
     (case find (\<lambda>k. length (json (server k)) < 100) [0..<10] of
        Some k \<Rightarrow> Suc k
      | None \<Rightarrow> 10)"

text \<open>
  The pagination invariant as the specification words it, for a given item count: the
  page count is \<open>max(1, ceil(item_count / items_per_page))\<close> and the current page lies between
  1 and the page count. The page size is positive. In the window the item count is the
  length of the filtered list.
\<close>

definition pagination_invariant :: "int \<Rightarrow> pagination_widget \<Rightarrow> bool" where
  "pagination_invariant item_count w \<longleftrightarrow>
     0 < items_per_page w \<and>
     total_pages w = max 1 \<lceil>real_of_int item_count / real_of_int (items_per_page w)\<rceil> \<and>
     1 \<le> current_page w \<and> current_page w \<le> total_pages w"

definition manager_invariant :: "manager \<Rightarrow> bool" where
  "manager_invariant m \<longleftrightarrow>
     pagination_invariant (int (length (filtered_avatars m))) (pagination m)"


definition ci_substring :: "(string \<Rightarrow> string) \<Rightarrow> string \<Rightarrow> string \<Rightarrow> bool" where
  "ci_substring lower needle hay \<longleftrightarrow> sublist (lower needle) (lower hay)"



section \<open>Example data\<close>




definition example_avatar :: avatar where
  "example_avatar =
     \<lparr>avatar_id = Some ''avtr_1'', name = Some (Str ''Red Fox''), authorName = Some (Str ''Kim''),
      description = None, unityPackages = None, assetUrl = None\<rparr>"


text \<open>A remote side with 203 avatars: two full pages, then a page of three.\<close>

definition example_server :: "nat \<Rightarrow> response" where
  "example_server k =
     \<lparr>status_code = 200,
      json = (if k < 2 then replicate 100 example_avatar else replicate 3 example_avatar),
      content_length = None, iter_content = []\<rparr>"

text \<open>A window that shows page 2 of 3: 120 avatars, unfiltered, 50 per page.\<close>

definition example_manager :: manager where
  "example_manager =
     \<lparr>avatars_data = replicate 120 example_avatar,
      filtered_avatars = replicate 120 example_avatar,
      mgr_current_page = 2, mgr_items_per_page = 50,
      pagination = \<lparr>current_page = 2, total_pages = 3, items_per_page = 50\<rparr>,
      search_input = [], displayed = []\<rparr>"


text \<open>
  A download of one mebibyte: the length header says 1048576 and the body arrives in 128
  chunks of 8192 bytes, the chunk size the worker asks for.
\<close>

definition example_chunk :: string where
  "example_chunk = replicate 8192 (CHR ''x'')"

definition example_download :: response where
  "example_download =
     \<lparr>status_code = 200, json = [], content_length = Some 1048576,
      iter_content = replicate 128 example_chunk\<rparr>"

section \<open>Shared facts\<close>

lemma str_in_iff_sublist: "str_in needle hay \<longleftrightarrow> sublist needle hay"
  by (induction hay) (auto simp: sublist_Cons_right)

lemma set_page_count_Inr:
  "items_per_page w \<noteq> 0 \<Longrightarrow>
   set_page_count total_items w =
     Inr (w\<lparr>total_pages := max 1 ((total_items + items_per_page w - 1) div items_per_page w),
           current_page := min (current_page w)
              (max 1 ((total_items + items_per_page w - 1) div items_per_page w))\<rparr>)"
  by (simp add: set_page_count_def Let_def)

lemma items_map_pos: "0 < items_map index"
  by (simp add: items_map_def)

lemma display_current_page_fields [simp]:
  "pagination (display_current_page m) = pagination m"
  "mgr_current_page (display_current_page m) = mgr_current_page m"
  "mgr_items_per_page (display_current_page m) = mgr_items_per_page m"
  "filtered_avatars (display_current_page m) = filtered_avatars m"
  "avatars_data (display_current_page m) = avatars_data m"
  by (simp_all add: display_current_page_def Let_def)

section \<open>Login routing on an unauthorized response\<close>

text \<open>
  C3, as stated, fails: the routing on the reason text is guarded by \<open>e.status == 200\<close>. An
  unauthorized response with status 401 whose reason contains "2 Factor Authentication" is a
  plain login failure.
\<close>

theorem login_worker_status_counterexample:
  "sublist ''2 Factor Authentication'' ''Requires 2 Factor Authentication'' \<and>
   login_worker (UnauthorizedException 401 ''Requires 2 Factor Authentication'' :: unit auth_response)
     = LoginFailed ''Requires 2 Factor Authentication''"
  by (simp add: str_in_iff_sublist [symmetric])

text \<open>
  C3, amended: for an unauthorized response with status 200, a reason containing
  "Email 2 Factor Authentication" routes to the email-code step; otherwise a reason
  containing "2 Factor Authentication" routes to the authenticator-code step; with neither
  substring, and for every unauthorized response with another status, the result is a plain
  login failure carrying the raw reason text.
\<close>

theorem login_worker_routing:
  "login_worker (UnauthorizedException status reason) =
     (if status = 200 \<and> sublist ''Email 2 Factor Authentication'' reason then Need2FA True
      else if status = 200 \<and> sublist ''2 Factor Authentication'' reason then Need2FA False
      else LoginFailed reason)"
  by (simp add: str_in_iff_sublist)

theorem login_worker_routing_witness:
  "(login_worker (UnauthorizedException 200 ''Email 2 Factor Authentication Required'')
      :: unit login_result) = Need2FA True \<and>
   (login_worker (UnauthorizedException 200 ''Requires 2 Factor Authentication'')
      :: unit login_result) = Need2FA False \<and>
   (login_worker (UnauthorizedException 200 ''Invalid Username/Email or Password'')
      :: unit login_result) = LoginFailed ''Invalid Username/Email or Password''"
  using login_worker_routing [of 200 "''Email 2 Factor Authentication Required''", where ?'a = unit]
        login_worker_routing [of 200 "''Requires 2 Factor Authentication''", where ?'a = unit]
        login_worker_routing [of 200 "''Invalid Username/Email or Password''", where ?'a = unit]
  by (simp add: str_in_iff_sublist [symmetric])

section \<open>A download that is refused\<close>

text \<open>
  C10: when the response to the download request has a status other than 200, the worker
  raises an exception whose message contains the status code, it has written nothing (the
  files are as before, the destination path included) and it has emitted no progress.
\<close>

theorem download_non_200_aborts:
  assumes "status_code (http (remove_variant_security file_url)) \<noteq> 200"
  shows "(\<exists>msg. outcome (download_file_worker http fs file_url output_path) = Inl msg \<and>
            sublist (str_int (status_code (http (remove_variant_security file_url)))) msg) \<and>
         files (download_file_worker http fs file_url output_path) = fs \<and>
         progress (download_file_worker http fs file_url output_path) = []"
proof -
  let ?code = "str_int (status_code (http (remove_variant_security file_url)))"
  have s: "sublist ?code (''Download failed with status '' @ ?code)"
    by (rule sublist_append_leftI)
  have r: "download_file_worker http fs file_url output_path =
             \<lparr>requested_url = remove_variant_security file_url, files = fs, progress = [],
              outcome = Inl (''Download failed with status '' @ ?code)\<rparr>"
    using assms by (simp add: download_file_worker_def Let_def)
  show ?thesis
    unfolding r using s by simp
qed

theorem download_non_200_aborts_witness:
  "status_code ((\<lambda>u. \<lparr>status_code = 403, json = [], content_length = Some 9,
       iter_content = [''Forbidden'']\<rparr>) (remove_variant_security ''https://x/file'')) \<noteq> 200 \<and>
   (\<exists>msg. outcome (download_file_worker (\<lambda>u. \<lparr>status_code = 403, json = [],
       content_length = Some 9, iter_content = [''Forbidden'']\<rparr>)
         [''a.vrca'' \<mapsto> ''old''] ''https://x/file'' ''a.vrca'') = Inl msg \<and>
      sublist ''403'' msg) \<and>
   files (download_file_worker (\<lambda>u. \<lparr>status_code = 403, json = [], content_length = Some 9,
       iter_content = [''Forbidden'']\<rparr>) [''a.vrca'' \<mapsto> ''old''] ''https://x/file'' ''a.vrca'')
     = [''a.vrca'' \<mapsto> ''old'']"
  using download_non_200_aborts [of "\<lambda>u. \<lparr>status_code = 403, json = [], content_length = Some 9,
       iter_content = [''Forbidden'']\<rparr>" "''https://x/file''" "[''a.vrca'' \<mapsto> ''old'']" "''a.vrca''"]
  by (simp add: str_int_def)

section \<open>Facts about \<open>split_first\<close> and URL resolution\<close>












section \<open>Download URL resolution follows the specified priorities\<close>



section \<open>Removal of the security-variant suffix\<close>




section \<open>The paginated fetch\<close>

lemma find_Some_set: "find P xs = Some x \<Longrightarrow> x \<in> set xs \<and> P x"
  by (induction xs) (auto split: if_splits)

lemma fetch_loop_run:
  assumes "\<forall>k. i \<le> k \<and> k < n \<longrightarrow> status_code (server k) = 200"
    and "n = (case find (\<lambda>k. length (json (server k)) < 100) [i..<i + m] of
                Some k \<Rightarrow> Suc k | None \<Rightarrow> i + m)"
  shows "fetch_loop filter_type server [i..<i + m] (100 * int i) all_avatars sent =
           (sent @ map (\<lambda>k. make_params filter_type (100 * int k)) [i..<n],
            Inr (all_avatars @ concat (map (\<lambda>k. json (server k)) [i..<n])))"
  using assms
proof (induction m arbitrary: i n all_avatars sent)
  case 0
  then show ?case by simp
next
  case (Suc m)
  have upt: "[i..<i + Suc m] = i # [Suc i..<Suc i + m]"
    by (simp add: upt_conv_Cons)
  show ?case
  proof (cases "length (json (server i)) < 100")
    case True
    from Suc.prems(2) have n: "n = Suc i"
      unfolding upt using True by simp
    with Suc.prems(1) have ok: "status_code (server i) = 200"
      by simp
    show ?thesis
      using True ok unfolding upt n
      by (simp add: Let_def page_size_def)
  next
    case False
    have f: "find (\<lambda>k. length (json (server k)) < 100) (i # xs) =
             find (\<lambda>k. length (json (server k)) < 100) xs" for xs
      using False by simp
    have a: "i + Suc m = Suc i + m"
      by simp
    from Suc.prems(2) have "n = (case find (\<lambda>k. length (json (server k)) < 100)
                                       [Suc i..<Suc i + m] of
                                     Some k \<Rightarrow> Suc k | None \<Rightarrow> i + Suc m)"
      by (simp only: upt f)
    then have n: "n = (case find (\<lambda>k. length (json (server k)) < 100)
                                       [Suc i..<Suc i + m] of
                                     Some k \<Rightarrow> Suc k | None \<Rightarrow> Suc i + m)"
      by (simp only: a)
    have "Suc i \<le> k"
      if "find (\<lambda>k. length (json (server k)) < 100) [Suc i..<Suc i + m] = Some k" for k
      using find_Some_set [OF that] by auto
    then have lt: "i < n"
      unfolding n by (auto split: option.splits)
    with Suc.prems(1) have ok: "status_code (server i) = 200"
      by simp
    have ok': "\<forall>k. Suc i \<le> k \<and> k < n \<longrightarrow> status_code (server k) = 200"
      using Suc.prems(1) by simp
    have ne: "json (server i) \<noteq> []"
      using False by auto
    have rec: "fetch_loop filter_type server [Suc i..<Suc i + m] (100 * int (Suc i))
                 (all_avatars @ json (server i))
                 (sent @ [make_params filter_type (100 * int i)]) =
               ((sent @ [make_params filter_type (100 * int i)]) @
                  map (\<lambda>k. make_params filter_type (100 * int k)) [Suc i..<n],
                Inr ((all_avatars @ json (server i)) @
                  concat (map (\<lambda>k. json (server k)) [Suc i..<n])))"
      using ok' n by (rule Suc.IH)
    have off: "100 * int i + page_size = 100 * int (Suc i)"
      by (simp add: page_size_def)
    have un: "[i..<n] = i # [Suc i..<n]"
      using lt by (simp add: upt_conv_Cons)
    show ?thesis
      unfolding upt un using False ok ne rec
      by (simp add: Let_def off) (simp add: page_size_def)
  qed
qed

lemma pages_requested_bounds: "1 \<le> pages_requested server \<and> pages_requested server \<le> 10"
proof -
  have "k < 10" if "find (\<lambda>k. length (json (server k)) < 100) [0..<10] = Some k" for k
    using find_Some_set [OF that] by simp
  then show ?thesis
    unfolding pages_requested_def by (fastforce split: option.splits)
qed

lemma pages_requested_stop:
  "(\<forall>k < pages_requested server - 1. 100 \<le> length (json (server k))) \<and>
   (pages_requested server = 10 \<or> length (json (server (pages_requested server - 1))) < 100)"
proof (cases "find (\<lambda>k. length (json (server k)) < 100) [0..<10]")
  case None
  then have "\<not> (\<exists>k. k \<in> set [0..<10] \<and> length (json (server k)) < 100)"
    by (simp add: find_None_iff)
  then have "\<forall>k < 10. 100 \<le> length (json (server k))"
    by force
  then have "\<forall>k < 9. 100 \<le> length (json (server k))"
    by auto
  with None show ?thesis
    by (simp add: pages_requested_def)
next
  case (Some j)
  then have "length (json (server j)) < 100 \<and> (\<forall>k < j. 100 \<le> length (json (server k)))"
    by (auto simp: find_Some_iff not_less)
  with Some show ?thesis
    by (simp add: pages_requested_def)
qed


lemma p_offset_make_params [simp]: "p_offset (make_params filter_type offset) = offset"
  by (simp add: make_params_def)

text \<open>
  C2: for every sequence of page responses (with status 200 as far as they are requested),
  the fetch requests \<open>pages_requested\<close> pages, one after the other, with the offsets 0, 100,
  200, ..., no offset twice; it returns, without an error, the records of these pages in
  request order; and \<open>pages_requested\<close> is the index of the first page with fewer than 100
  records (an empty page included), counted from 1, or 10 when there is no such page among
  the first ten.
\<close>

theorem fetch_stops_at_short_page_or_cap:
  assumes "\<forall>k < pages_requested server. status_code (server k) = 200"
  shows "fetch_avatars_worker filter_type server =
           (map (\<lambda>k. make_params filter_type (100 * int k)) [0..<pages_requested server],
            Inr (concat (map (\<lambda>k. json (server k)) [0..<pages_requested server]))) \<and>
         map p_offset (fst (fetch_avatars_worker filter_type server)) =
           map (\<lambda>k. 100 * int k) [0..<pages_requested server] \<and>
         distinct (map p_offset (fst (fetch_avatars_worker filter_type server))) \<and>
         1 \<le> pages_requested server \<and> pages_requested server \<le> 10 \<and>
         (\<forall>k < pages_requested server - 1. 100 \<le> length (json (server k))) \<and>
         (pages_requested server = 10 \<or>
          length (json (server (pages_requested server - 1))) < 100)"
proof -
  let ?n = "pages_requested server"
  have ok: "\<forall>k. 0 \<le> k \<and> k < ?n \<longrightarrow> status_code (server k) = 200"
    using assms by simp
  have n: "?n = (case find (\<lambda>k. length (json (server k)) < 100) [0..<0 + 10] of
                   Some k \<Rightarrow> Suc k | None \<Rightarrow> 0 + 10)"
    by (simp add: pages_requested_def split: option.splits)
  have run: "fetch_loop filter_type server [0..<0 + 10] (100 * int 0) [] [] =
           ([] @ map (\<lambda>k. make_params filter_type (100 * int k)) [0..<?n],
            Inr ([] @ concat (map (\<lambda>k. json (server k)) [0..<?n])))"
    using ok n by (rule fetch_loop_run)
  have w: "fetch_avatars_worker filter_type server =
           (map (\<lambda>k. make_params filter_type (100 * int k)) [0..<?n],
            Inr (concat (map (\<lambda>k. json (server k)) [0..<?n])))"
    using run by (simp add: fetch_avatars_worker_def max_pages_def)
  have offs: "map p_offset (fst (fetch_avatars_worker filter_type server)) =
           map (\<lambda>k. 100 * int k) [0..<?n]"
    unfolding w by (simp add: comp_def)
  have inj: "inj_on (\<lambda>k. 100 * int k) (set [0..<?n])"
    by (rule inj_onI) simp
  have d: "distinct (map p_offset (fst (fetch_avatars_worker filter_type server)))"
    unfolding offs using inj by (simp add: distinct_map)
  show ?thesis
    using w offs d pages_requested_bounds [of server] pages_requested_stop [of server]
    by blast
qed

theorem fetch_stops_at_short_page_or_cap_witness:
  "pages_requested example_server = 3 \<and>
   status_code (example_server 0) = 200 \<and> status_code (example_server 1) = 200 \<and>
   status_code (example_server 2) = 200 \<and>
   map p_offset (fst (fetch_avatars_worker ''all'' example_server)) = [0, 100, 200] \<and>
   snd (fetch_avatars_worker ''all'' example_server) = Inr (replicate 203 example_avatar)"
proof -
  have n: "pages_requested example_server = 3"
    by (simp add: pages_requested_def example_server_def upt_rec)
  have h: "\<forall>k < pages_requested example_server. status_code (example_server k) = 200"
    by (simp add: example_server_def)
  have u: "[0..<3] = [0, 1, 2]"
    by (simp add: upt_rec)
  have c: "concat (map (\<lambda>k. json (example_server k)) [0, 1, 2]) = replicate 203 example_avatar"
    by (simp add: example_server_def replicate_add [symmetric])
  show ?thesis
    using fetch_stops_at_short_page_or_cap [OF h, of "''all''"] c unfolding n u
    by (simp add: example_server_def)
qed

section \<open>The pagination invariant\<close>

lemma ceil_div_int:
  assumes "0 < (k::int)"
  shows "\<lceil>real_of_int n / real_of_int k\<rceil> = (n + k - 1) div k"
proof -
  define q where "q = n div k"
  define r where "r = n mod k"
  have r: "0 \<le> r" "r < k"
    using assms by (simp_all add: r_def)
  have n: "n = k * q + r"
    by (simp add: q_def r_def)
  have neg: "- n div k = (if r = 0 then - q else - q - 1)"
    using assms zdiv_zminus1_eq_if [of k n] by (simp add: q_def r_def)
  have pos: "(n + k - 1) div k = (if r = 0 then q else q + 1)"
  proof (cases "r = 0")
    case True
    have "n + k - 1 = k * q + (k - 1)"
      using n True by simp
    then have "(n + k - 1) div k = q"
      by (rule int_div_pos_eq) (use assms in simp_all)
    with True show ?thesis by simp
  next
    case False
    have "n + k - 1 = k * (q + 1) + (r - 1)"
      using n by (simp add: algebra_simps)
    then have "(n + k - 1) div k = q + 1"
      by (rule int_div_pos_eq) (use r False in simp_all)
    with False show ?thesis by simp
  qed
  show ?thesis
    by (simp add: ceiling_divide_eq_div neg pos)
qed


lemma set_page_count_establishes:
  assumes "0 < items_per_page w" and "1 \<le> current_page w"
  shows "\<exists>w'. set_page_count n w = Inr w' \<and> pagination_invariant n w' \<and>
              items_per_page w' = items_per_page w \<and>
              current_page w' = min (current_page w) (total_pages w')"
proof -
  have nz: "items_per_page w \<noteq> 0"
    using assms(1) by simp
  show ?thesis
    using assms
    by (simp add: set_page_count_Inr [OF nz] pagination_invariant_def ceil_div_int)
qed

lemma prev_page_preserves:
  "pagination_invariant n w \<Longrightarrow> pagination_invariant n (fst (prev_page w))"
  by (auto simp: pagination_invariant_def prev_page_def Let_def)

lemma next_page_preserves:
  "pagination_invariant n w \<Longrightarrow> pagination_invariant n (fst (next_page w))"
  by (auto simp: pagination_invariant_def next_page_def Let_def)

lemma pagination_invariant_empty:
  "pagination_invariant 0 w \<Longrightarrow> current_page w = 1 \<and> total_pages w = 1"
  by (auto simp: pagination_invariant_def)

lemma change_page_establishes:
  assumes "0 < items_per_page (pagination m)" and "1 \<le> current_page (pagination m)"
    and "filtered_avatars m = [] \<longrightarrow> pagination_invariant 0 (pagination m)"
  shows "\<exists>m'. change_page page_num m = Inr m' \<and> manager_invariant m' \<and>
              filtered_avatars m' = filtered_avatars m"
proof (cases "filtered_avatars m = []")
  case True
  with assms(3) show ?thesis
    by (simp add: change_page_def Let_def manager_invariant_def)
next
  case False
  from set_page_count_establishes [OF assms(1,2), of "int (length (filtered_avatars m))"]
  obtain w' where "set_page_count (int (length (filtered_avatars m))) (pagination m) = Inr w'"
    and "pagination_invariant (int (length (filtered_avatars m))) w'"
    by blast
  with False show ?thesis
    by (simp add: change_page_def Let_def manager_invariant_def)
qed

lemma deliver_establishes:
  assumes "0 < items_per_page (fst r)" and "1 \<le> current_page (fst r)"
    and "filtered_avatars m = [] \<longrightarrow> pagination_invariant 0 (fst r)"
    and "snd r = None \<longrightarrow> pagination_invariant (int (length (filtered_avatars m))) (fst r)"
  shows "\<exists>m'. deliver r m = Inr m' \<and> manager_invariant m' \<and>
              filtered_avatars m' = filtered_avatars m"
proof (cases r)
  case (Pair w e)
  show ?thesis
  proof (cases e)
    case None
    with Pair assms(4) show ?thesis
      by (simp add: deliver_def manager_invariant_def)
  next
    case (Some page_num)
    have "\<exists>m'. change_page page_num (m\<lparr>pagination := w\<rparr>) = Inr m' \<and> manager_invariant m' \<and>
              filtered_avatars m' = filtered_avatars (m\<lparr>pagination := w\<rparr>)"
      by (rule change_page_establishes) (use Pair assms in simp_all)
    with Pair Some show ?thesis
      by (simp add: deliver_def)
  qed
qed

lemma on_prev_page_preserves:
  assumes "manager_invariant m"
  shows "\<exists>m'. on_prev_page m = Inr m' \<and> manager_invariant m'"
proof -
  have i: "pagination_invariant (int (length (filtered_avatars m))) (fst (prev_page (pagination m)))"
    using assms unfolding manager_invariant_def by (rule prev_page_preserves)
  have "\<exists>m'. deliver (prev_page (pagination m)) m = Inr m' \<and> manager_invariant m' \<and>
              filtered_avatars m' = filtered_avatars m"
    by (rule deliver_establishes) (use i in \<open>auto simp: pagination_invariant_def\<close>)
  then show ?thesis
    by (auto simp: on_prev_page_def)
qed

lemma on_next_page_preserves:
  assumes "manager_invariant m"
  shows "\<exists>m'. on_next_page m = Inr m' \<and> manager_invariant m'"
proof -
  have i: "pagination_invariant (int (length (filtered_avatars m))) (fst (next_page (pagination m)))"
    using assms unfolding manager_invariant_def by (rule next_page_preserves)
  have "\<exists>m'. deliver (next_page (pagination m)) m = Inr m' \<and> manager_invariant m' \<and>
              filtered_avatars m' = filtered_avatars m"
    by (rule deliver_establishes) (use i in \<open>auto simp: pagination_invariant_def\<close>)
  then show ?thesis
    by (auto simp: on_next_page_def)
qed

lemma on_change_items_per_page_preserves:
  assumes "manager_invariant m"
  shows "\<exists>m'. on_change_items_per_page index m = Inr m' \<and> manager_invariant m'"
proof -
  let ?r = "change_items_per_page index (pagination m)"
  have i: "pagination_invariant (int (length (filtered_avatars m))) (pagination m)"
    using assms by (simp add: manager_invariant_def)
  have p: "0 < items_map index"
    by (rule items_map_pos)
  have 1: "0 < items_per_page (fst ?r)"
    using i p by (simp add: change_items_per_page_def Let_def pagination_invariant_def)
  have 2: "1 \<le> current_page (fst ?r)"
    using i by (simp add: change_items_per_page_def Let_def pagination_invariant_def)
  have 3: "filtered_avatars m = [] \<longrightarrow> pagination_invariant 0 (fst ?r)"
    using i p by (auto simp: change_items_per_page_def Let_def pagination_invariant_def)
  have 4: "snd ?r = None \<longrightarrow> pagination_invariant (int (length (filtered_avatars m))) (fst ?r)"
    using i by (simp add: change_items_per_page_def Let_def)
  have "\<exists>m'. deliver ?r m = Inr m' \<and> manager_invariant m' \<and>
              filtered_avatars m' = filtered_avatars m"
    using 1 2 3 4 by (rule deliver_establishes)
  then show ?thesis
    by (auto simp: on_change_items_per_page_def)
qed

text \<open>
  C5: the pagination state satisfies total_pages = max(1, ceil(item_count / items_per_page))
  and 1 <= current_page <= total_pages. \<open>set_page_count\<close> establishes this for the count it
  is given, from any state with a positive page size and a current page of at least 1, and
  so from any state that satisfies the invariant for another count; \<open>prev_page\<close> and
  \<open>next_page\<close> preserve it; \<open>change_items_per_page\<close> preserves it for the filtered list of the
  window, through the \<open>pageChanged\<close> signal it emits, whose slot recomputes the page
  count; an empty item set yields page 1 of 1; the initial state satisfies the invariant.
\<close>

theorem pagination_invariant_maintained:
  "(0 < items_per_page w \<and> 1 \<le> current_page w \<longrightarrow>
      (\<exists>w'. set_page_count n w = Inr w' \<and> pagination_invariant n w')) \<and>
   (pagination_invariant n w \<longrightarrow>
      pagination_invariant n (fst (prev_page w)) \<and>
      pagination_invariant n (fst (next_page w)) \<and>
      (\<exists>w'. set_page_count n' w = Inr w' \<and> pagination_invariant n' w')) \<and>
   (manager_invariant m \<longrightarrow>
      (\<exists>m'. on_prev_page m = Inr m' \<and> manager_invariant m') \<and>
      (\<exists>m'. on_next_page m = Inr m' \<and> manager_invariant m') \<and>
      (\<exists>m'. on_change_items_per_page index m = Inr m' \<and> manager_invariant m')) \<and>
   (pagination_invariant 0 w \<longrightarrow> current_page w = 1 \<and> total_pages w = 1) \<and>
   pagination_invariant 0 init_pagination \<and> manager_invariant init_manager"
proof (intro conjI impI)
  assume "0 < items_per_page w \<and> 1 \<le> current_page w"
  then show "\<exists>w'. set_page_count n w = Inr w' \<and> pagination_invariant n w'"
    using set_page_count_establishes [of w n] by blast
next
  assume i: "pagination_invariant n w"
  show "pagination_invariant n (fst (prev_page w))"
    using i by (rule prev_page_preserves)
  show "pagination_invariant n (fst (next_page w))"
    using i by (rule next_page_preserves)
  show "\<exists>w'. set_page_count n' w = Inr w' \<and> pagination_invariant n' w'"
    using i set_page_count_establishes [of w n'] by (auto simp: pagination_invariant_def)
next
  assume i: "manager_invariant m"
  show "\<exists>m'. on_prev_page m = Inr m' \<and> manager_invariant m'"
    using i by (rule on_prev_page_preserves)
  show "\<exists>m'. on_next_page m = Inr m' \<and> manager_invariant m'"
    using i by (rule on_next_page_preserves)
  show "\<exists>m'. on_change_items_per_page index m = Inr m' \<and> manager_invariant m'"
    using i by (rule on_change_items_per_page_preserves)
next
  assume "pagination_invariant 0 w"
  then show "current_page w = 1" and "total_pages w = 1"
    by (simp_all add: pagination_invariant_empty)
next
  show "pagination_invariant 0 init_pagination"
    by (simp add: pagination_invariant_def init_pagination_def)
  then show "manager_invariant init_manager"
    by (simp add: manager_invariant_def init_manager_def)
qed

theorem pagination_invariant_maintained_witness:
  "0 < items_per_page (pagination example_manager) \<and>
   1 \<le> current_page (pagination example_manager) \<and>
   pagination_invariant 120 (pagination example_manager) \<and>
   manager_invariant example_manager \<and>
   (\<exists>w'. set_page_count 30 (pagination example_manager) = Inr w' \<and> pagination_invariant 30 w') \<and>
   pagination_invariant 120 (fst (prev_page (pagination example_manager))) \<and>
   pagination_invariant 120 (fst (next_page (pagination example_manager))) \<and>
   (\<exists>m'. on_prev_page example_manager = Inr m' \<and> manager_invariant m') \<and>
   (\<exists>m'. on_next_page example_manager = Inr m' \<and> manager_invariant m') \<and>
   (\<exists>m'. on_change_items_per_page 0 example_manager = Inr m' \<and> manager_invariant m') \<and>
   pagination_invariant 0 init_pagination \<and>
   current_page init_pagination = 1 \<and> total_pages init_pagination = 1"
proof -
  have h1: "0 < items_per_page (pagination example_manager) \<and>
            1 \<le> current_page (pagination example_manager)"
    by (simp add: example_manager_def)
  have h2: "pagination_invariant 120 (pagination example_manager)"
    by (simp add: example_manager_def pagination_invariant_def)
  have h3: "manager_invariant example_manager"
    by (simp add: example_manager_def manager_invariant_def pagination_invariant_def)
  note t1 = pagination_invariant_maintained
    [of "pagination example_manager" 120 30 example_manager 0]
  note t2 = pagination_invariant_maintained [of init_pagination 0 0 init_manager 0]
  show ?thesis
    using h1 h2 h3 t1 t2 by blast
qed

section \<open>Progress signals of a download\<close>

lemma example_chunk_length: "length example_chunk = 8192"
  by (simp add: example_chunk_def)

lemma example_chunk_nonempty: "example_chunk \<noteq> []"
  using example_chunk_length by fastforce

lemma download_loop_append:
  "download_loop total_size (xs @ ys) f downloaded emitted =
     (case download_loop total_size xs f downloaded emitted of
        (f1, downloaded1, emitted1) \<Rightarrow> download_loop total_size ys f1 downloaded1 emitted1)"
  by (induction xs arbitrary: f downloaded emitted) (simp_all add: Let_def)

lemma download_loop_written:
  "fst (download_loop total_size chunks f downloaded emitted) = f @ concat chunks"
  by (induction chunks arbitrary: f downloaded emitted) (simp_all add: Let_def)

lemma download_loop_emitted_extends:
  "\<exists>rest. snd (snd (download_loop total_size chunks f downloaded emitted)) = emitted @ rest"
proof (induction chunks arbitrary: f downloaded emitted)
  case Nil
  then show ?case by simp
next
  case (Cons chunk chunks)
  show ?case
  proof (cases "chunk \<noteq> [] \<and> 0 < total_size")
    case True
    let ?s = "\<lparr>percent = (downloaded + int (length chunk)) * 100 div total_size,
               downloaded_bytes = downloaded + int (length chunk), total_bytes = total_size\<rparr>"
    from Cons.IH [of "f @ chunk" "downloaded + int (length chunk)" "emitted @ [?s]"]
    obtain rest where "snd (snd (download_loop total_size chunks (f @ chunk)
        (downloaded + int (length chunk)) (emitted @ [?s]))) = (emitted @ [?s]) @ rest"
      by blast
    with True show ?thesis
      by (simp add: Let_def)
  next
    case False
    with Cons.IH show ?thesis
      by (auto simp: Let_def)
  qed
qed

lemma download_loop_count:
  "0 < total_size \<Longrightarrow>
   length (snd (snd (download_loop total_size chunks f downloaded emitted))) =
     length emitted + length (filter (\<lambda>chunk. chunk \<noteq> []) chunks)"
  by (induction chunks arbitrary: f downloaded emitted) (simp_all add: Let_def)

lemma download_loop_unknown_size:
  "total_size \<le> 0 \<Longrightarrow>
   snd (snd (download_loop total_size chunks f downloaded emitted)) = emitted"
  by (induction chunks arbitrary: f downloaded emitted) (simp_all add: Let_def)


lemma example_first_chunks:
  "download_loop 1048576
     [example_chunk, example_chunk, example_chunk, example_chunk, example_chunk] [] 0 [] =
   (example_chunk @ example_chunk @ example_chunk @ example_chunk @ example_chunk, 40960,
    [\<lparr>percent = 0, downloaded_bytes = 8192, total_bytes = 1048576\<rparr>,
     \<lparr>percent = 1, downloaded_bytes = 16384, total_bytes = 1048576\<rparr>,
     \<lparr>percent = 2, downloaded_bytes = 24576, total_bytes = 1048576\<rparr>,
     \<lparr>percent = 3, downloaded_bytes = 32768, total_bytes = 1048576\<rparr>,
     \<lparr>percent = 3, downloaded_bytes = 40960, total_bytes = 1048576\<rparr>])"
  by (simp add: example_chunk_length example_chunk_nonempty Let_def)

lemma download_unknown_size:
  assumes "status_code (http (remove_variant_security file_url)) = 200"
    and "content_length (http (remove_variant_security file_url)) = None \<or>
         content_length (http (remove_variant_security file_url)) = Some 0"
  shows "progress (download_file_worker http fs file_url output_path) = [] \<and>
         files (download_file_worker http fs file_url output_path) =
           fs(output_path \<mapsto> concat (iter_content (http (remove_variant_security file_url))))"
proof -
  let ?r = "http (remove_variant_security file_url)"
  have t: "(case content_length ?r of None \<Rightarrow> 0 | Some k \<Rightarrow> k) = 0"
    using assms(2) by auto
  obtain f d e where l: "download_loop 0 (iter_content ?r) [] 0 [] = (f, d, e)"
    by (cases "download_loop 0 (iter_content ?r) [] 0 []") auto
  have "f = concat (iter_content ?r)"
    using download_loop_written [of 0 "iter_content ?r" "[]" 0 "[]"] l by simp
  moreover have "e = []"
    using download_loop_unknown_size [of 0 "iter_content ?r" "[]" 0 "[]"] l by simp
  ultimately show ?thesis
    using assms(1) t l by (simp add: download_file_worker_def Let_def)
qed

text \<open>
  C4 says that, with the total size known, the progress callback is invoked once per
  whole-percent increment. The source announces this ("only update UI every 1%") but its
  test, \<open>percent % 1 == 0\<close>, holds for every integer, so the worker emits for every
  non-empty chunk. For the one-mebibyte download in chunks of 8192 bytes it emits 128
  signals, and the fourth and the fifth carry the same percent value, 3.
\<close>

theorem progress_emitted_for_every_chunk:
  "length (progress (download_file_worker (\<lambda>u. example_download) Map.empty
        ''https://api.vrchat.cloud/file'' ''fox.vrca'')) = 128 \<and>
   map percent (take 5 (progress (download_file_worker (\<lambda>u. example_download) Map.empty
        ''https://api.vrchat.cloud/file'' ''fox.vrca''))) = [0, 1, 2, 3, 3]"
proof -
  let ?run = "download_file_worker (\<lambda>u. example_download) Map.empty
        ''https://api.vrchat.cloud/file'' ''fox.vrca''"
  let ?loop = "download_loop 1048576 (replicate 128 example_chunk) [] 0 []"
  have p: "progress ?run = snd (snd ?loop)"
    by (simp add: download_file_worker_def example_download_def Let_def split: prod.splits)
  have n: "length (snd (snd ?loop)) = 128"
    by (simp add: download_loop_count filter_replicate example_chunk_nonempty)
  have five: "replicate 5 example_chunk =
      [example_chunk, example_chunk, example_chunk, example_chunk, example_chunk]"
    by (simp add: numeral_eq_Suc)
  have "replicate 128 example_chunk = replicate 5 example_chunk @ replicate 123 example_chunk"
    by (simp add: replicate_add [symmetric])
  then have split: "replicate 128 example_chunk =
      [example_chunk, example_chunk, example_chunk, example_chunk, example_chunk] @
      replicate 123 example_chunk"
    by (simp only: five)
  obtain f1 e1 where first: "download_loop 1048576
      [example_chunk, example_chunk, example_chunk, example_chunk, example_chunk] [] 0 [] =
      (f1, 40960, e1)"
    and e1: "map percent e1 = [0, 1, 2, 3, 3]"
    using example_first_chunks by simp
  have "?loop = download_loop 1048576 (replicate 123 example_chunk) f1 40960 e1"
    by (simp only: split download_loop_append first prod.case)
  moreover obtain rest where
    "snd (snd (download_loop 1048576 (replicate 123 example_chunk) f1 40960 e1)) = e1 @ rest"
    using download_loop_emitted_extends by blast
  ultimately have "snd (snd ?loop) = e1 @ rest"
    by simp
  moreover have "length e1 = 5"
  proof -
    have "length (map percent e1) = length [0, 1, 2, 3, 3 :: int]"
      by (simp only: e1)
    then show ?thesis by simp
  qed
  ultimately have "map percent (take 5 (snd (snd ?loop))) = [0, 1, 2, 3, 3]"
    using e1 by simp
  with n show ?thesis
    by (simp only: p)
qed

section \<open>The filtered subset\<close>














text \<open>
  Where \<open>lower\<close> works character by character, the case-insensitive substring is a run of
  the field that equals the text letter by letter, up to case.
\<close>

lemma ci_substring_charwise:
  "ci_substring (map f) needle hay \<longleftrightarrow>
     (\<exists>pre mid post. hay = pre @ mid @ post \<and> list_all2 (\<lambda>c d. f c = f d) needle mid)"
proof -
  have eq: "map f xs = map f ys \<longleftrightarrow> list_all2 (\<lambda>c d. f c = f d) xs ys" for xs ys
  proof -
    have "list_all2 (\<lambda>c d. f c = f d) xs ys \<longleftrightarrow> list_all2 (=) (map f xs) (map f ys)"
      by (simp add: list.rel_map)
    then show ?thesis
      by (simp add: list.rel_eq)
  qed
  show ?thesis
  proof
    assume "ci_substring (map f) needle hay"
    then obtain ps ss where "map f hay = ps @ map f needle @ ss"
      by (auto simp: ci_substring_def sublist_def)
    then have "\<exists>us vs. hay = us @ vs \<and> ps = map f us \<and> map f needle @ ss = map f vs"
      by (simp only: map_eq_append_conv)
    then obtain pre rest where h1: "hay = pre @ rest"
      and "map f needle @ ss = map f rest"
      by blast
    then have "\<exists>us vs. rest = us @ vs \<and> map f needle = map f us \<and> ss = map f vs"
      by (simp only: append_eq_map_conv)
    then obtain mid post where h2: "rest = mid @ post"
      and m: "map f needle = map f mid"
      by blast
    from m have "list_all2 (\<lambda>c d. f c = f d) needle mid"
      by (simp only: eq)
    with h1 h2 show "\<exists>pre mid post. hay = pre @ mid @ post \<and>
        list_all2 (\<lambda>c d. f c = f d) needle mid"
      by blast
  next
    assume "\<exists>pre mid post. hay = pre @ mid @ post \<and> list_all2 (\<lambda>c d. f c = f d) needle mid"
    then obtain pre mid post where h: "hay = pre @ mid @ post"
      and "list_all2 (\<lambda>c d. f c = f d) needle mid"
      by blast
    then have "map f needle = map f mid"
      by (simp add: eq)
    with h have "map f hay = map f pre @ map f needle @ map f post"
      by simp
    then show "ci_substring (map f) needle hay"
      by (simp add: ci_substring_def)
  qed
qed




section \<open>Return to page 1\<close>





section \<open>The code submitted by the two-factor dialog\<close>

lemma code_input_after_edit:
  "code_input (code_input_textChanged isdigit text d) = filter isdigit (take 6 text)"
proof -
  let ?t = "take 6 text"
  have "length (filter isdigit ?t) \<le> 6"
    using length_filter_le [of isdigit ?t] by simp
  then have "take 6 (filter isdigit ?t) = filter isdigit ?t"
    by simp
  then show ?thesis
    by (simp add: code_input_textChanged_def validate_code_input_def code_input_setText_def
        code_input_maxLength_def Let_def)
qed

lemma code_input_settled:
  "validate_code_input isdigit (code_input (code_input_textChanged isdigit text d))
     (code_input_textChanged isdigit text d) = code_input_textChanged isdigit text d"
  by (simp add: validate_code_input_def code_input_after_edit Let_def)




end
